theory Spec2Isabelle
  imports Main
begin

section \<open>The room coordinator of worker/index.ts\<close>

text \<open>
  The Durable Object \<open>PlanningPokerRoom\<close> keeps a \<open>Map<WebSocket, SessionData>\<close> and a
  flag \<open>revealed\<close>; its host keeps one serialized attachment per connection. A connection
  is identified by a number (object identity of the \<open>WebSocket\<close>). A string is a list of
  code units, so \<open>slice(0, 32)\<close> is \<open>take 32\<close>, and a string is falsy exactly when it is
  empty.
\<close>

type_synonym WebSocket = nat

text \<open>The attachment \<open>{userId, name, vote}\<close>; \<open>SessionData\<close> adds the connection.\<close>

record meta =
  userId :: string
  name :: string
  vote :: "string option"

record SessionData = meta +
  webSocket :: WebSocket

text \<open>\<open>ClientMessage\<close>, with the payload fields at their declared types.\<close>

datatype ClientMessage =
    CJoin string
  | CVote "string option"
  | CReveal
  | CReset
  | CEmoji string string

text \<open>
  What \<open>JSON.parse(message) as ClientMessage\<close> followed by \<open>switch (data.type)\<close> can do:
  throw (with the exception's message), select none of the five cases, or select one.
\<close>

datatype inbound =
    Unparsable string
  | Unrecognized
  | Parsed ClientMessage

text \<open>One entry \<open>{id, name, hasVoted}\<close> of the \<open>users\<close> array.\<close>

datatype UserEntry = UserEntry string string bool

text \<open>
  \<open>ServerMessage\<close>. A \<open>Record<string, string | null>\<close> is a list of properties in creation
  order, each key once; the \<open>votes\<close> of a state message are optional.
\<close>

type_synonym VoteRecord = "(string \<times> string option) list"

datatype ServerMessage =
    SJoined string string
  | SUserJoined string string
  | SUserLeft string
  | SVoted string bool
  | SRevealed VoteRecord
  | SReset
  | SState "UserEntry list" bool "VoteRecord option"
  | SEmoji string string string
  | SError string

text \<open>What a handler does to the outside: a delivered message, or a closed connection.\<close>

datatype event =
    Sent WebSocket ServerMessage
  | Closed WebSocket nat string

text \<open>
  \<open>ws.send(str)\<close> either delivers or throws; the network says which, giving the message of
  the exception when it throws.
\<close>

type_synonym network = "WebSocket \<Rightarrow> ServerMessage \<Rightarrow> string option"

text \<open>A handler returns, or its promise rejects with an exception that escaped it.\<close>

datatype outcome = Returned | Rejected string

type_synonym registry = "(WebSocket \<times> SessionData) list"

text \<open>The object's two fields, and the attachments its host holds per connection.\<close>

record room =
  sessions :: registry
  revealed :: bool
  attachments :: "WebSocket \<rightharpoonup> meta"

subsection \<open>Map and object primitives\<close>

text \<open>\<open>Map.prototype.set\<close>: an existing key keeps its place, a new key goes last.\<close>

fun Map_set :: "'k \<Rightarrow> 'v \<Rightarrow> ('k \<times> 'v) list \<Rightarrow> ('k \<times> 'v) list" where
  "Map_set k v [] = [(k, v)]"
| "Map_set k v ((k', v') # rest) =
     (if k' = k then (k, v) # rest else (k', v') # Map_set k v rest)"

text \<open>\<open>Map.prototype.delete\<close>.\<close>

definition Map_delete :: "'k \<Rightarrow> ('k \<times> 'v) list \<Rightarrow> ('k \<times> 'v) list" where
  "Map_delete k m = filter (\<lambda>(k', v). k' \<noteq> k) m"

text \<open>\<open>Object.fromEntries\<close>, and the loop \<open>votes[s.userId] = s.vote\<close>: property assignment.\<close>

definition fromEntries :: "(string \<times> string option) list \<Rightarrow> VoteRecord" where
  "fromEntries entries = fold (\<lambda>(k, v) obj. Map_set k v obj) entries []"

text \<open>\<open>{userId: s.userId, name: s.name, vote: s.vote}\<close>, the argument of \<open>serializeAttachment\<close>.\<close>

definition attachment_of :: "SessionData \<Rightarrow> meta" where
  "attachment_of s = \<lparr>userId = userId s, name = name s, vote = vote s\<rparr>"

text \<open>\<open>Array.from(this.sessions.values()).filter((s) => s.name)\<close>.\<close>

definition named_sessions :: "registry \<Rightarrow> SessionData list" where
  "named_sessions reg = filter (\<lambda>s. name s \<noteq> []) (map snd reg)"

text \<open>The \<open>forEach\<close> of the reveal case: \<open>if (s.name) votes[s.userId] = s.vote\<close>.\<close>

fun collect_votes :: "registry \<Rightarrow> VoteRecord \<Rightarrow> VoteRecord" where
  "collect_votes [] votes = votes"
| "collect_votes ((ws, s) # rest) votes =
     collect_votes rest (if name s \<noteq> [] then Map_set (userId s) (vote s) votes else votes)"

subsection \<open>broadcast\<close>

text \<open>
  The \<open>forEach\<close> of \<open>broadcast\<close>: the excluded connection and the sessions without a name
  are skipped, a send that throws puts the connection among the quitters.
\<close>

fun broadcast_loop ::
  "network \<Rightarrow> ServerMessage \<Rightarrow> WebSocket option \<Rightarrow> registry \<Rightarrow> event list \<times> WebSocket list"
where
  "broadcast_loop env message exclude [] = ([], [])"
| "broadcast_loop env message exclude ((ws, session) # rest) =
     (let (evs, quitters) = broadcast_loop env message exclude rest in
      if Some ws = exclude then (evs, quitters)
      else if name session = [] then (evs, quitters)
      else (case env ws message of
              None \<Rightarrow> (Sent ws message # evs, quitters)
            | Some err \<Rightarrow> (evs, ws # quitters)))"

definition broadcast ::
  "network \<Rightarrow> ServerMessage \<Rightarrow> WebSocket option \<Rightarrow> room \<Rightarrow> room \<times> event list"
where
  "broadcast env message exclude st =
     (let (evs, quitters) = broadcast_loop env message exclude (sessions st) in
      (st\<lparr>sessions := fold Map_delete quitters (sessions st)\<rparr>, evs))"

subsection \<open>constructor and handleSession\<close>

text \<open>
  The constructor's loop over \<open>state.getWebSockets()\<close>. An attachment that was never
  written deserializes to \<open>null\<close>, which the cast to \<open>{userId, name, vote}\<close> does not cover:
  the typed model has no session for it and gives \<open>None\<close>.
\<close>

fun restore :: "WebSocket list \<Rightarrow> (WebSocket \<rightharpoonup> meta) \<Rightarrow> registry \<Rightarrow> registry option" where
  "restore [] att reg = Some reg"
| "restore (ws # wss) att reg =
     (case att ws of
        None \<Rightarrow> None
      | Some m \<Rightarrow>
          restore wss att
            (Map_set ws \<lparr>userId = userId m, name = name m, vote = vote m, webSocket = ws\<rparr> reg))"

definition constructor :: "WebSocket list \<Rightarrow> (WebSocket \<rightharpoonup> meta) \<Rightarrow> room option" where
  "constructor getWebSockets att =
     (case restore getWebSockets att [] of
        None \<Rightarrow> None
      | Some reg \<Rightarrow> Some \<lparr>sessions = reg, revealed = False, attachments = att\<rparr>)"

text \<open>\<open>handleSession\<close>; the identifier is what \<open>crypto.randomUUID()\<close> returned.\<close>

definition handleSession :: "WebSocket \<Rightarrow> string \<Rightarrow> room \<Rightarrow> room" where
  "handleSession ws uid st =
     st\<lparr>attachments := (attachments st)(ws \<mapsto> \<lparr>userId = uid, name = [], vote = None\<rparr>),
        sessions := Map_set ws \<lparr>userId = uid, name = [], vote = None, webSocket = ws\<rparr> (sessions st)\<rparr>"

subsection \<open>webSocketMessage\<close>

text \<open>A send inside the \<open>try\<close> block: the events so far, and the exception if it throws.\<close>

definition send :: "network \<Rightarrow> WebSocket \<Rightarrow> ServerMessage \<Rightarrow> event list \<times> string option" where
  "send env ws message =
     (case env ws message of None \<Rightarrow> ([Sent ws message], None) | Some err \<Rightarrow> ([], Some err))"

text \<open>The state message of the join case.\<close>

definition stateMessage :: "room \<Rightarrow> ServerMessage" where
  "stateMessage st =
     SState
       (map (\<lambda>s. UserEntry (userId s) (name s) (vote s \<noteq> None)) (named_sessions (sessions st)))
       (revealed st)
       (if revealed st
        then Some (fromEntries (map (\<lambda>s. (userId s, vote s)) (named_sessions (sessions st))))
        else None)"

text \<open>The \<open>forEach\<close> of the reset case: every session loses its vote, in both places.\<close>

fun reset_votes :: "registry \<Rightarrow> (WebSocket \<rightharpoonup> meta) \<Rightarrow> registry \<times> (WebSocket \<rightharpoonup> meta)" where
  "reset_votes [] att = ([], att)"
| "reset_votes ((ws, s) # rest) att =
     (let (rest', att') =
            reset_votes rest
              (att(webSocket s \<mapsto> \<lparr>userId = userId s, name = name s, vote = None\<rparr>))
      in ((ws, s\<lparr>vote := None\<rparr>) # rest', att'))"

text \<open>
  The cases of the \<open>switch\<close>, for the session \<open>session\<close> found under \<open>ws\<close>. The result is
  the room, the events, and the exception that left the \<open>try\<close> block if there is one.
\<close>

fun dispatch ::
  "network \<Rightarrow> WebSocket \<Rightarrow> SessionData \<Rightarrow> ClientMessage \<Rightarrow> room \<Rightarrow> room \<times> event list \<times> string option"
where
  "dispatch env ws session (CJoin n) st =
     (let session' = session\<lparr>name := take 32 n\<rparr>;
          st1 = st\<lparr>sessions := Map_set ws session' (sessions st),
                   attachments := (attachments st)(ws \<mapsto> attachment_of session')\<rparr>
      in case env ws (stateMessage st1) of
           Some err \<Rightarrow> (st1, [], Some err)
         | None \<Rightarrow>
            (case env ws (SJoined (userId session') (name session')) of
               Some err \<Rightarrow> (st1, [Sent ws (stateMessage st1)], Some err)
             | None \<Rightarrow>
                (let (st2, evs) =
                       broadcast env (SUserJoined (userId session') (name session')) (Some ws) st1
                 in (st2,
                     Sent ws (stateMessage st1)
                       # Sent ws (SJoined (userId session') (name session')) # evs,
                     None))))"
| "dispatch env ws session (CVote the_card) st =
     (if name session = [] then
        (let (evs, exc) = send env ws (SError ''Must join first'') in (st, evs, exc))
      else
        (let session' = session\<lparr>vote := the_card\<rparr>;
             st1 = st\<lparr>sessions := Map_set ws session' (sessions st),
                      attachments := (attachments st)(ws \<mapsto> attachment_of session')\<rparr>;
             (st2, evs) = broadcast env (SVoted (userId session') (vote session' \<noteq> None)) None st1
         in (st2, evs, None)))"
| "dispatch env ws session CReveal st =
     (if name session = [] then
        (let (evs, exc) = send env ws (SError ''Must join first'') in (st, evs, exc))
      else
        (let st1 = st\<lparr>revealed := True\<rparr>;
             votes = collect_votes (sessions st1) [];
             (st2, evs) = broadcast env (SRevealed votes) None st1
         in (st2, evs, None)))"
| "dispatch env ws session (CEmoji targetUserId emoji) st =
     (if name session = [] then
        (let (evs, exc) = send env ws (SError ''Must join first'') in (st, evs, exc))
      else
        (let (st2, evs) = broadcast env (SEmoji (userId session) targetUserId emoji) None st
         in (st2, evs, None)))"
| "dispatch env ws session CReset st =
     (if name session = [] then
        (let (evs, exc) = send env ws (SError ''Must join first'') in (st, evs, exc))
      else
        (let (reg, att) = reset_votes (sessions st) (attachments st);
             st1 = st\<lparr>revealed := False, sessions := reg, attachments := att\<rparr>;
             (st2, evs) = broadcast env SReset None st1
         in (st2, evs, None)))"

text \<open>The \<open>try\<close> block: the lookup of the session, the parse, the \<open>switch\<close>.\<close>

definition try_block ::
  "network \<Rightarrow> WebSocket \<Rightarrow> inbound \<Rightarrow> room \<Rightarrow> room \<times> event list \<times> string option"
where
  "try_block env ws message st =
     (case map_of (sessions st) ws of
        None \<Rightarrow> (st, [Closed ws 1011 ''Session not found''], None)
      | Some session \<Rightarrow>
         (case message of
            Unparsable err \<Rightarrow> (st, [], Some err)
          | Unrecognized \<Rightarrow> (st, [], None)
          | Parsed data \<Rightarrow> dispatch env ws session data st))"

text \<open>
  \<open>webSocketMessage\<close>: the \<open>catch\<close> sends the exception's message to the connection the
  message came from; when that send throws as well, nothing catches it.
\<close>

definition webSocketMessage ::
  "network \<Rightarrow> WebSocket \<Rightarrow> inbound \<Rightarrow> room \<Rightarrow> room \<times> event list \<times> outcome"
where
  "webSocketMessage env ws message st =
     (case try_block env ws message st of
        (st', evs, None) \<Rightarrow> (st', evs, Returned)
      | (st', evs, Some err) \<Rightarrow>
         (case env ws (SError err) of
            None \<Rightarrow> (st', evs @ [Sent ws (SError err)], Returned)
          | Some err' \<Rightarrow> (st', evs, Rejected err')))"

subsection \<open>closeOrErrorHandler\<close>

definition closeOrErrorHandler :: "network \<Rightarrow> WebSocket \<Rightarrow> room \<Rightarrow> room \<times> event list" where
  "closeOrErrorHandler env ws st =
     (let (st1, evs) =
            (case map_of (sessions st) ws of
               None \<Rightarrow> (st, [])
             | Some session \<Rightarrow>
                 if name session \<noteq> [] then broadcast env (SUserLeft (userId session)) None st
                 else (st, []))
      in (st1\<lparr>sessions := Map_delete ws (sessions st1)\<rparr>, evs))"

subsection \<open>Vocabulary of the statements\<close>

text \<open>
  The sessions a broadcast is meant for, those it reaches, those whose send throws, and a
  registry without the connections of some sessions.
\<close>

definition eligible :: "WebSocket option \<Rightarrow> WebSocket \<times> SessionData \<Rightarrow> bool" where
  "eligible exclude p = (Some (fst p) \<noteq> exclude \<and> name (snd p) \<noteq> [])"

definition delivered :: "network \<Rightarrow> ServerMessage \<Rightarrow> WebSocket option \<Rightarrow> registry \<Rightarrow> registry" where
  "delivered env message exclude reg =
     filter (\<lambda>p. eligible exclude p \<and> env (fst p) message = None) reg"

definition failing :: "network \<Rightarrow> ServerMessage \<Rightarrow> WebSocket option \<Rightarrow> registry \<Rightarrow> registry" where
  "failing env message exclude reg =
     filter (\<lambda>p. eligible exclude p \<and> env (fst p) message \<noteq> None) reg"

definition without :: "registry \<Rightarrow> registry \<Rightarrow> registry" where
  "without dropped reg = filter (\<lambda>p. fst p \<notin> fst ` set dropped) reg"

text \<open>The actions that need a name: vote, reveal, reset and emoji.\<close>

fun join_gated :: "ClientMessage \<Rightarrow> bool" where
  "join_gated (CJoin n) = False"
| "join_gated (CVote c) = True"
| "join_gated CReveal = True"
| "join_gated CReset = True"
| "join_gated (CEmoji t e) = True"

text \<open>The votes a message carries in the clear, if it carries any.\<close>

fun raw_votes :: "ServerMessage \<Rightarrow> VoteRecord option" where
  "raw_votes (SRevealed votes) = Some votes"
| "raw_votes (SState users r votes) = votes"
| "raw_votes (SJoined u n) = None"
| "raw_votes (SUserJoined u n) = None"
| "raw_votes (SUserLeft u) = None"
| "raw_votes (SVoted u h) = None"
| "raw_votes SReset = None"
| "raw_votes (SEmoji f t e) = None"
| "raw_votes (SError m) = None"

text \<open>
  A registry mirrors the attachments when it holds each connection once and every session
  is filed under its own connection, whose attachment is the session's
  \<open>{userId, name, vote}\<close>.
\<close>

definition mirrored :: "(WebSocket \<rightharpoonup> meta) \<Rightarrow> registry \<Rightarrow> bool" where
  "mirrored att reg \<longleftrightarrow>
     distinct (map fst reg)
     \<and> (\<forall>p \<in> set reg. webSocket (snd p) = fst p \<and> att (fst p) = Some (attachment_of (snd p)))"

definition attached :: "room \<Rightarrow> bool" where
  "attached st \<longleftrightarrow> mirrored (attachments st) (sessions st)"

subsection \<open>A room to run the handlers on\<close>

text \<open>
  Alice has joined and voted, Bob has joined, a third connection has not joined. On the
  reliable network every send delivers; on the flaky one Bob's connection throws.
\<close>

definition alice :: SessionData where
  "alice = \<lparr>userId = ''u1'', name = ''Alice'', vote = Some ''5'', webSocket = 1\<rparr>"

definition bob :: SessionData where
  "bob = \<lparr>userId = ''u2'', name = ''Bob'', vote = None, webSocket = 2\<rparr>"

definition guest :: SessionData where
  "guest = \<lparr>userId = ''u3'', name = [], vote = None, webSocket = 3\<rparr>"

definition example_room :: room where
  "example_room =
     \<lparr>sessions = [(1, alice), (2, bob), (3, guest)],
      revealed = False,
      attachments =
        [1 \<mapsto> attachment_of alice, 2 \<mapsto> attachment_of bob, 3 \<mapsto> attachment_of guest]\<rparr>"

definition reliable :: network where
  "reliable ws message = None"

definition flaky :: network where
  "flaky ws message = (if ws = 2 then Some ''WebSocket is closed'' else None)"

section \<open>Properties\<close>

subsection \<open>Maps, objects and the fan-out loop\<close>

lemma map_of_Map_set: "map_of (Map_set k v m) = (map_of m)(k \<mapsto> v)"
  by (induction m) (auto simp: fun_eq_iff)

lemma map_fst_Map_set:
  "map fst (Map_set k v m) = (if k \<in> set (map fst m) then map fst m else map fst m @ [k])"
  by (induction m) (auto simp: rev_image_eqI)

lemma keys_Map_set: "fst ` set (Map_set k v m) = insert k (fst ` set m)"
  using map_fst_Map_set [of k v m, THEN arg_cong, of set] by (auto simp: image_iff)

lemma distinct_Map_set: "distinct (map fst m) \<Longrightarrow> distinct (map fst (Map_set k v m))"
  by (simp add: map_fst_Map_set)

lemma fold_Map_delete: "fold Map_delete qs reg = filter (\<lambda>(w, s). w \<notin> set qs) reg"
proof (induction qs arbitrary: reg)
  case Nil
  then show ?case by simp
next
  case (Cons q qs)
  have "filter (\<lambda>(w, s). w \<notin> set qs) (Map_delete q reg) = filter (\<lambda>(w, s). w \<notin> set (q # qs)) reg"
    unfolding Map_delete_def by (induction reg) auto
  with Cons show ?case by simp
qed

lemma broadcast_loop_eq:
  "broadcast_loop env m ex reg =
     (map (\<lambda>(w, s). Sent w m)
        (filter (\<lambda>(w, s). Some w \<noteq> ex \<and> name s \<noteq> [] \<and> env w m = None) reg),
      map fst (filter (\<lambda>(w, s). Some w \<noteq> ex \<and> name s \<noteq> [] \<and> env w m \<noteq> None) reg))"
proof (induction reg)
  case Nil
  then show ?case by simp
next
  case (Cons p reg)
  obtain w s where p: "p = (w, s)" by (cases p)
  show ?case unfolding p by (cases "env w m") (simp_all add: Cons.IH)
qed

lemma broadcast_eq:
  "broadcast env m ex st =
     (st\<lparr>sessions :=
          filter (\<lambda>(w, s). w \<notin> fst ` set (filter (\<lambda>(w, s). Some w \<noteq> ex \<and> name s \<noteq> [] \<and> env w m \<noteq> None) (sessions st)))
            (sessions st)\<rparr>,
      map (\<lambda>(w, s). Sent w m)
        (filter (\<lambda>(w, s). Some w \<noteq> ex \<and> name s \<noteq> [] \<and> env w m = None) (sessions st)))"
  unfolding broadcast_def
  by (simp add: broadcast_loop_eq fold_Map_delete)

lemma collect_votes_fold:
  "collect_votes reg votes =
     fold (\<lambda>(k, v) obj. Map_set k v obj) (map (\<lambda>s. (userId s, vote s)) (named_sessions reg)) votes"
  by (induction reg arbitrary: votes) (auto simp: named_sessions_def)

lemma collect_votes_fromEntries:
  "collect_votes reg [] = fromEntries (map (\<lambda>s. (userId s, vote s)) (named_sessions reg))"
  by (simp add: collect_votes_fold fromEntries_def)

lemma keys_fold_Map_set:
  "fst ` set (fold (\<lambda>(k, v) obj. Map_set k v obj) es acc) = fst ` set es \<union> fst ` set acc"
proof (induction es arbitrary: acc)
  case Nil
  then show ?case by simp
next
  case (Cons e es)
  obtain k v where e: "e = (k, v)" by (cases e)
  show ?case by (simp add: e Cons.IH keys_Map_set)
qed

lemma distinct_fold_Map_set:
  "distinct (map fst acc) \<Longrightarrow> distinct (map fst (fold (\<lambda>(k, v) obj. Map_set k v obj) es acc))"
  by (induction es arbitrary: acc) (auto simp: distinct_Map_set)

lemma map_of_fold_Map_set:
  "distinct (map fst es) \<Longrightarrow> (k, v) \<in> set es \<Longrightarrow>
   map_of (fold (\<lambda>(k, v) obj. Map_set k v obj) es acc) k = Some v"
proof (induction es arbitrary: acc)
  case Nil
  then show ?case by simp
next
  case (Cons e es)
  obtain k' v' where e: "e = (k', v')" by (cases e)
  show ?case
  proof (cases "(k, v) \<in> set es")
    case True
    with Cons show ?thesis by (simp add: e)
  next
    case False
    with Cons.prems have kv: "k' = k" "v' = v" and notin: "k \<notin> fst ` set es"
      by (auto simp: e)
    have "map_of (fold (\<lambda>(k, v) obj. Map_set k v obj) es acc') k = map_of acc' k" for acc'
      using notin by (induction es arbitrary: acc') (auto simp: map_of_Map_set)
    then show ?thesis by (simp add: e kv map_of_Map_set)
  qed
qed

lemma broadcast_char:
  "broadcast env message exclude st =
     (st\<lparr>sessions := without (failing env message exclude (sessions st)) (sessions st)\<rparr>,
      map (\<lambda>p. Sent (fst p) message) (delivered env message exclude (sessions st)))"
  by (simp add: broadcast_eq without_def failing_def delivered_def eligible_def split_def)

lemma without_Nil: "without [] reg = reg"
  by (simp add: without_def)

lemma without_simps:
  "without dropped [] = []"
  "without dropped (p # reg) =
     (if fst p \<in> fst ` set dropped then without dropped reg else p # without dropped reg)"
  by (simp_all add: without_def)

lemma failing_simps:
  "failing env message exclude [] = []"
  "failing env message exclude (p # reg) =
     (if eligible exclude p \<and> env (fst p) message \<noteq> None
      then p # failing env message exclude reg else failing env message exclude reg)"
  by (simp_all add: failing_def)

lemma delivered_simps:
  "delivered env message exclude [] = []"
  "delivered env message exclude (p # reg) =
     (if eligible exclude p \<and> env (fst p) message = None
      then p # delivered env message exclude reg else delivered env message exclude reg)"
  by (simp_all add: delivered_def)

lemma userId_collect_votes:
  "fst ` set (collect_votes reg []) = userId ` set (named_sessions reg)"
  by (simp add: collect_votes_fold keys_fold_Map_set image_image)

lemma distinct_collect_votes: "distinct (map fst (collect_votes reg []))"
  by (simp add: collect_votes_fold distinct_fold_Map_set)

lemma map_of_collect_votes:
  assumes "distinct (map userId (named_sessions reg))" and "s \<in> set (named_sessions reg)"
  shows "map_of (collect_votes reg []) (userId s) = Some (vote s)"
proof -
  let ?es = "map (\<lambda>s. (userId s, vote s)) (named_sessions reg)"
  have "distinct (map fst ?es)" using assms(1) by (simp add: comp_def)
  moreover have "(userId s, vote s) \<in> set ?es" using assms(2) by auto
  ultimately show ?thesis
    unfolding collect_votes_fold by (rule map_of_fold_Map_set)
qed

subsection \<open>Send failures during a broadcast\<close>

text \<open>
  Claim C7. A broadcast reaches every named session other than the excluded one whose send
  does not throw, whatever the other sends do: the events are one delivery of the given
  message per such session of the registry as it was before the call, in registry order.
  The connections whose send threw are removed from the registry, after the loop and from
  nowhere else; nothing but the given message is sent, so no \<open>userLeft\<close> is made up for
  them.
\<close>

theorem broadcast_isolates_send_failures:
  "broadcast env message exclude st =
     (st\<lparr>sessions := without (failing env message exclude (sessions st)) (sessions st)\<rparr>,
      map (\<lambda>p. Sent (fst p) message) (delivered env message exclude (sessions st)))"
proof -
  have loop: "broadcast_loop env message exclude (sessions st) =
      (map (\<lambda>p. Sent (fst p) message) (delivered env message exclude (sessions st)),
       map fst (failing env message exclude (sessions st)))"
    by (simp add: broadcast_loop_eq delivered_def failing_def eligible_def split_def)
  have drop: "fold Map_delete (map fst (failing env message exclude (sessions st))) (sessions st) =
      without (failing env message exclude (sessions st)) (sessions st)"
    by (simp add: fold_Map_delete without_def split_def)
  show ?thesis
    unfolding broadcast_def loop by (simp add: drop)
qed

lemma broadcast_flaky_example:
  "broadcast flaky SReset None example_room =
     (example_room\<lparr>sessions := [(1, alice), (3, guest)]\<rparr>, [Sent 1 SReset])"
  by (simp add: broadcast_char without_def failing_def delivered_def eligible_def
        example_room_def flaky_def alice_def bob_def guest_def)

subsection \<open>reveal\<close>

text \<open>
  Claim C2. When a session that has a name sends reveal, the handler returns with
  \<open>revealed\<close> set, and each named session whose send does not throw is sent one
  \<open>revealed\<close> message. Its votes have one key per \<open>userId\<close> of a named session and no
  other key; where the named sessions have different identifiers (they come from
  \<open>crypto.randomUUID()\<close>), each key maps to that session's vote, \<open>null\<close> when it has none.
\<close>

theorem reveal_broadcasts_all_votes:
  assumes "map_of (sessions st) ws = Some session" and "name session \<noteq> []"
  shows "webSocketMessage env ws (Parsed CReveal) st =
           (st\<lparr>revealed := True,
               sessions :=
                 without (failing env (SRevealed (collect_votes (sessions st) [])) None (sessions st))
                   (sessions st)\<rparr>,
            map (\<lambda>p. Sent (fst p) (SRevealed (collect_votes (sessions st) [])))
              (delivered env (SRevealed (collect_votes (sessions st) [])) None (sessions st)),
            Returned)
         \<and> fst ` set (collect_votes (sessions st) []) = userId ` set (named_sessions (sessions st))
         \<and> distinct (map fst (collect_votes (sessions st) []))
         \<and> (distinct (map userId (named_sessions (sessions st))) \<longrightarrow>
              (\<forall>s \<in> set (named_sessions (sessions st)).
                 map_of (collect_votes (sessions st) []) (userId s) = Some (vote s)))"
  using assms
  by (simp add: webSocketMessage_def try_block_def broadcast_char Let_def userId_collect_votes
        distinct_collect_votes map_of_collect_votes)

theorem reveal_broadcasts_all_votes_witness:
  "map_of (sessions example_room) 1 = Some alice \<and> name alice \<noteq> []
   \<and> webSocketMessage reliable 1 (Parsed CReveal) example_room =
       (example_room\<lparr>revealed := True\<rparr>,
        [Sent 1 (SRevealed [(''u1'', Some ''5''), (''u2'', None)]),
         Sent 2 (SRevealed [(''u1'', Some ''5''), (''u2'', None)])],
        Returned)"
  using reveal_broadcasts_all_votes [of example_room 1 alice reliable]
  by (simp add: without_def failing_def delivered_def eligible_def
        example_room_def reliable_def alice_def bob_def guest_def)

subsection \<open>Actions before join\<close>

lemma dispatch_unjoined:
  assumes "name session = []" and "join_gated data"
  shows "dispatch env ws session data st =
           (case env ws (SError ''Must join first'') of
              None \<Rightarrow> (st, [Sent ws (SError ''Must join first'')], None)
            | Some err \<Rightarrow> (st, [], Some err))"
  using assms by (cases data) (simp_all add: send_def split: option.splits)

text \<open>
  Claim C3. A vote, reveal, reset or emoji from a session whose name is empty changes
  nothing: the room after the handler is the room before it, and every event is a message
  to the sender's own connection. When the send of the error does not throw, the handler
  returns and that message, \<open>error\<close> with the text "Must join first", is the only event.
\<close>

theorem unjoined_action_gets_only_an_error:
  assumes "map_of (sessions st) ws = Some session" and "name session = []" and "join_gated data"
  shows "fst (webSocketMessage env ws (Parsed data) st) = st
       \<and> (\<forall>e \<in> set (fst (snd (webSocketMessage env ws (Parsed data) st))).
            \<exists>message. e = Sent ws message)
       \<and> (env ws (SError ''Must join first'') = None \<longrightarrow>
            webSocketMessage env ws (Parsed data) st =
              (st, [Sent ws (SError ''Must join first'')], Returned))"
  using assms
  by (simp add: webSocketMessage_def try_block_def dispatch_unjoined split: option.splits)

theorem unjoined_action_gets_only_an_error_witness:
  "map_of (sessions example_room) 3 = Some guest \<and> name guest = [] \<and> join_gated (CVote (Some ''8''))
   \<and> webSocketMessage reliable 3 (Parsed (CVote (Some ''8''))) example_room =
       (example_room, [Sent 3 (SError ''Must join first'')], Returned)"
  using unjoined_action_gets_only_an_error [of example_room 3 guest "CVote (Some ''8'')" reliable]
  by (simp add: example_room_def reliable_def guest_def)

subsection \<open>Messages that do not parse, and unknown tags\<close>

text \<open>
  Claim C6, as stated, asks for an error reply to a message whose tag is none of the five.
  The \<open>switch\<close> has no \<open>default\<close> case and nothing throws, so the \<open>catch\<close> is not
  entered: such a message from Alice is answered by nothing at all.
\<close>

theorem unrecognized_tag_counterexample:
  "webSocketMessage reliable 1 Unrecognized example_room = (example_room, [], Returned)"
  by (simp add: webSocketMessage_def try_block_def example_room_def)

text \<open>
  Claim C6, amended. For a registered session, a message whose tag is none of the five is
  dropped: the room is unchanged, nothing is sent, the handler returns. A message that does
  not parse leaves the room unchanged as well and every event is a message to the sender's
  own connection; when the send of the error does not throw, the handler returns and the
  only event is the \<open>error\<close> carrying the exception's message.
\<close>

theorem protocol_errors:
  assumes "map_of (sessions st) ws = Some session"
  shows "webSocketMessage env ws Unrecognized st = (st, [], Returned)
       \<and> fst (webSocketMessage env ws (Unparsable err) st) = st
       \<and> (\<forall>e \<in> set (fst (snd (webSocketMessage env ws (Unparsable err) st))).
            \<exists>message. e = Sent ws message)
       \<and> (env ws (SError err) = None \<longrightarrow>
            webSocketMessage env ws (Unparsable err) st = (st, [Sent ws (SError err)], Returned))"
  using assms
  by (simp add: webSocketMessage_def try_block_def split: option.splits)

theorem protocol_errors_witness:
  "map_of (sessions example_room) 1 = Some alice
   \<and> webSocketMessage reliable 1 Unrecognized example_room = (example_room, [], Returned)
   \<and> webSocketMessage reliable 1 (Unparsable ''Unexpected token'') example_room =
       (example_room, [Sent 1 (SError ''Unexpected token'')], Returned)"
  using protocol_errors [of example_room 1 alice reliable "''Unexpected token''"]
  by (simp add: example_room_def reliable_def)

subsection \<open>Disconnecting\<close>

lemma not_in_Map_delete: "(k, v) \<notin> set (Map_delete k reg)"
  by (simp add: Map_delete_def)

lemma distinct_delivered:
  "distinct (map fst reg) \<Longrightarrow> distinct (map (\<lambda>p. Sent (fst p) message) (delivered env message exclude reg))"
proof -
  assume "distinct (map fst reg)"
  then have "distinct (map fst (delivered env message exclude reg))"
    unfolding delivered_def by (rule distinct_map_filter)
  then show ?thesis
    by (simp add: distinct_map inj_on_def)
qed

lemma others_of_delivered:
  "filter (\<lambda>e. e \<noteq> Sent ws message)
     (map (\<lambda>p. Sent (fst p) message) (delivered env message None reg)) =
   map (\<lambda>p. Sent (fst p) message) (delivered env message (Some ws) reg)"
  by (induction reg) (auto simp: delivered_def eligible_def)

text \<open>
  Claim C8, as stated, sends \<open>userLeft\<close> to the remaining named sessions. The handler
  broadcasts before it deletes and excludes nobody, so the departing session is still
  registered during the loop: on a network where every send delivers, Bob's own connection
  gets the \<open>userLeft\<close> about Bob as well.
\<close>

theorem departing_connection_counterexample:
  "map_of (sessions example_room) 2 = Some bob \<and> name bob \<noteq> []
   \<and> snd (closeOrErrorHandler reliable 2 example_room) =
       [Sent 1 (SUserLeft ''u2''), Sent 2 (SUserLeft ''u2'')]"
  by (simp add: closeOrErrorHandler_def broadcast_char without_simps failing_simps delivered_simps
        eligible_def example_room_def reliable_def alice_def bob_def guest_def)

text \<open>
  Claim C8, amended. When the connection of a registered session closes or errors: if the
  session has a name, the events are one \<open>userLeft\<close> with its \<open>userId\<close> per named session of
  the registry as it was, the departing one included, whose send does not throw, and
  nothing else. Apart from the one to the departing connection, which is there exactly
  when that send does not throw, these are one per remaining named session whose send does
  not throw; a registry holds a connection once, so none gets it twice. If the session has
  no name there is no event. Either way the connection is no longer in the registry
  afterwards.
\<close>

theorem disconnect_broadcasts_userLeft:
  assumes "map_of (sessions st) ws = Some session"
    and "closeOrErrorHandler env ws st = (st', evs)"
  shows "(name session \<noteq> [] \<longrightarrow>
            evs = map (\<lambda>p. Sent (fst p) (SUserLeft (userId session)))
                    (delivered env (SUserLeft (userId session)) None (sessions st))
            \<and> filter (\<lambda>e. e \<noteq> Sent ws (SUserLeft (userId session))) evs =
                map (\<lambda>p. Sent (fst p) (SUserLeft (userId session)))
                  (filter (\<lambda>p. fst p \<noteq> ws \<and> name (snd p) \<noteq> []
                             \<and> env (fst p) (SUserLeft (userId session)) = None)
                     (sessions st))
            \<and> (Sent ws (SUserLeft (userId session)) \<in> set evs \<longleftrightarrow>
                 env ws (SUserLeft (userId session)) = None))
       \<and> (name session = [] \<longrightarrow> evs = [])
       \<and> ws \<notin> fst ` set (sessions st')
       \<and> (distinct (map fst (sessions st)) \<longrightarrow> distinct evs)"
proof -
  let ?m = "SUserLeft (userId session)"
  have mem: "(ws, session) \<in> set (sessions st)"
    using assms(1) by (rule map_of_SomeD)
  have evs: "evs = (if name session \<noteq> [] then map (\<lambda>p. Sent (fst p) ?m) (delivered env ?m None (sessions st)) else [])"
    and gone: "ws \<notin> fst ` set (sessions st')"
    using assms
    by (auto simp: closeOrErrorHandler_def broadcast_char not_in_Map_delete split: if_splits)
  have others: "filter (\<lambda>e. e \<noteq> Sent ws ?m) (map (\<lambda>p. Sent (fst p) ?m) (delivered env ?m None (sessions st))) =
      map (\<lambda>p. Sent (fst p) ?m)
        (filter (\<lambda>p. fst p \<noteq> ws \<and> name (snd p) \<noteq> [] \<and> env (fst p) ?m = None) (sessions st))"
    unfolding others_of_delivered by (simp add: delivered_def eligible_def)
  have self: "Sent ws ?m \<in> set (map (\<lambda>p. Sent (fst p) ?m) (delivered env ?m None (sessions st)))
      \<longleftrightarrow> env ws ?m = None" if "name session \<noteq> []"
    using mem that by (force simp: delivered_def eligible_def)
  have dist: "distinct (map fst (sessions st)) \<longrightarrow> distinct evs"
    unfolding evs by (simp add: distinct_delivered)
  show ?thesis
    using evs gone others self dist by simp
qed

theorem disconnect_broadcasts_userLeft_witness:
  "map_of (sessions example_room) 2 = Some bob
   \<and> closeOrErrorHandler flaky 2 example_room =
       (example_room\<lparr>sessions := [(1, alice), (3, guest)]\<rparr>, [Sent 1 (SUserLeft ''u2'')])
   \<and> 2 \<notin> fst ` set [(1::nat, alice), (3, guest)]"
  using disconnect_broadcasts_userLeft [of example_room 2 bob flaky
      "example_room\<lparr>sessions := [(1, alice), (3, guest)]\<rparr>" "[Sent 1 (SUserLeft ''u2'')]"]
  by (simp add: closeOrErrorHandler_def broadcast_char without_def failing_def delivered_def
        eligible_def Map_delete_def example_room_def flaky_def alice_def bob_def guest_def)

subsection \<open>join\<close>

lemma map_of_filter_key:
  "map_of (filter (\<lambda>p. P (fst p)) reg) w = (if P w then map_of reg w else None)"
  by (induction reg) auto

lemma map_of_without:
  "map_of (without dropped reg) w = (if w \<in> fst ` set dropped then None else map_of reg w)"
  unfolding without_def
  using map_of_filter_key [of "\<lambda>k. k \<notin> fst ` set dropped" reg w] by simp

lemma failing_excludes: "ws \<notin> fst ` set (failing env message (Some ws) reg)"
  by (auto simp: failing_def eligible_def)


lemma failing_Map_set_excluded:
  "failing env message (Some ws) (Map_set ws s reg) = failing env message (Some ws) reg"
  unfolding failing_def eligible_def by (induction reg) auto

lemma in_failing_iff:
  "w \<in> fst ` set (failing env message exclude reg) \<longleftrightarrow>
     (\<exists>s. (w, s) \<in> set reg \<and> Some w \<noteq> exclude \<and> name s \<noteq> [] \<and> env w message \<noteq> None)"
  by (force simp: failing_def eligible_def)

lemma dispatch_join_room:
  "fst (dispatch env ws session (CJoin n) st) =
     st\<lparr>sessions :=
          without
            (if env ws (stateMessage
                  (st\<lparr>sessions := Map_set ws (session\<lparr>name := take 32 n\<rparr>) (sessions st),
                      attachments := (attachments st)(ws \<mapsto> attachment_of (session\<lparr>name := take 32 n\<rparr>))\<rparr>)) = None
                \<and> env ws (SJoined (userId session) (take 32 n)) = None
             then failing env (SUserJoined (userId session) (take 32 n)) (Some ws) (sessions st)
             else [])
            (Map_set ws (session\<lparr>name := take 32 n\<rparr>) (sessions st)),
        attachments := (attachments st)(ws \<mapsto> attachment_of (session\<lparr>name := take 32 n\<rparr>))\<rparr>"
  by (simp add: Let_def broadcast_char without_Nil failing_Map_set_excluded split: option.split)

lemma fst_webSocketMessage:
  "fst (webSocketMessage env ws message st) = fst (try_block env ws message st)"
  by (simp add: webSocketMessage_def split: prod.split option.split)

lemma fst_webSocketMessage_Parsed:
  assumes "map_of (sessions st) ws = Some session"
  shows "fst (webSocketMessage env ws (Parsed data) st) = fst (dispatch env ws session data st)"
  unfolding fst_webSocketMessage try_block_def by (simp add: assms del: dispatch.simps)

lemma set_if_subset: "set (if b then xs else []) \<subseteq> set xs"
  by auto

lemma join_room:
  assumes "map_of (sessions st) ws = Some session"
  shows "\<exists>dropped.
           fst (webSocketMessage env ws (Parsed (CJoin n)) st) =
             st\<lparr>sessions := without dropped (Map_set ws (session\<lparr>name := take 32 n\<rparr>) (sessions st)),
                attachments := (attachments st)(ws \<mapsto> attachment_of (session\<lparr>name := take 32 n\<rparr>))\<rparr>
         \<and> set dropped \<subseteq> set (failing env (SUserJoined (userId session) (take 32 n)) (Some ws) (sessions st))"
proof -
  let ?F = "failing env (SUserJoined (userId session) (take 32 n)) (Some ws) (sessions st)"
  let ?ok = "env ws (stateMessage
                  (st\<lparr>sessions := Map_set ws (session\<lparr>name := take 32 n\<rparr>) (sessions st),
                      attachments := (attachments st)(ws \<mapsto> attachment_of (session\<lparr>name := take 32 n\<rparr>))\<rparr>)) = None
                \<and> env ws (SJoined (userId session) (take 32 n)) = None"
  let ?d = "if ?ok then ?F else []"
  have eq: "fst (webSocketMessage env ws (Parsed (CJoin n)) st) =
             st\<lparr>sessions := without ?d (Map_set ws (session\<lparr>name := take 32 n\<rparr>) (sessions st)),
                attachments := (attachments st)(ws \<mapsto> attachment_of (session\<lparr>name := take 32 n\<rparr>))\<rparr>"
    unfolding fst_webSocketMessage_Parsed [OF assms] by (rule dispatch_join_room)
  have sub: "set ?d \<subseteq> set ?F"
    by (rule set_if_subset)
  from eq sub show ?thesis
    by (intro exI [of _ ?d] conjI)
qed










text \<open>
  Claim C10, as stated, leaves every other session as it was. The join ends with a
  broadcast, and a broadcast drops the connections whose send throws: when Alice joins
  again on the network where Bob's connection throws, Bob is no longer registered.
\<close>

theorem rejoin_drops_counterexample:
  "map_of (sessions example_room) 1 = Some alice \<and> name alice \<noteq> []
   \<and> map_of (sessions example_room) 2 = Some bob
   \<and> map_of (sessions (fst (webSocketMessage flaky 1 (Parsed (CJoin ''Alicia'')) example_room))) 2 = None"
  by (simp add: webSocketMessage_def try_block_def Let_def stateMessage_def broadcast_char
        named_sessions_def without_simps failing_simps delivered_simps eligible_def
        example_room_def flaky_def alice_def bob_def guest_def)

text \<open>
  Claim C10, amended. After a join from a registered session, whatever the sends do: the
  session is registered with the new name and with the \<open>userId\<close>, vote and connection it
  had; the \<open>revealed\<close> flag is what it was; every other connection that is still
  registered has the session it had before; and a connection whose \<open>userJoined\<close> send
  does not throw is registered exactly as before, so a session leaves the registry only
  when that send throws.
\<close>

theorem rejoin_changes_only_the_name:
  assumes "map_of (sessions st) ws = Some session"
    and "webSocketMessage env ws (Parsed (CJoin n)) st = (st', evs, out)"
  shows "(\<exists>s. map_of (sessions st') ws = Some s \<and> name s = take 32 n
              \<and> userId s = userId session \<and> vote s = vote session
              \<and> webSocket s = webSocket session)
       \<and> revealed st' = revealed st
       \<and> (\<forall>w s. w \<noteq> ws \<and> map_of (sessions st') w = Some s \<longrightarrow> map_of (sessions st) w = Some s)
       \<and> (\<forall>w. w \<noteq> ws \<and> env w (SUserJoined (userId session) (take 32 n)) = None \<longrightarrow>
              map_of (sessions st') w = map_of (sessions st) w)"
proof -
  let ?F = "failing env (SUserJoined (userId session) (take 32 n)) (Some ws) (sessions st)"
  have st': "fst (webSocketMessage env ws (Parsed (CJoin n)) st) = st'"
    unfolding assms(2) by (rule fst_conv)
  from join_room [OF assms(1), of env n] obtain dropped where
    room: "st' = st\<lparr>sessions := without dropped (Map_set ws (session\<lparr>name := take 32 n\<rparr>) (sessions st)),
                attachments := (attachments st)(ws \<mapsto> attachment_of (session\<lparr>name := take 32 n\<rparr>))\<rparr>"
    and sub: "set dropped \<subseteq> set ?F"
    unfolding st' by (elim exE conjE)
  have self: "ws \<notin> fst ` set dropped"
    using sub failing_excludes [of ws env "SUserJoined (userId session) (take 32 n)" "sessions st"]
    by blast
  have fails: "env w (SUserJoined (userId session) (take 32 n)) \<noteq> None"
    if "w \<in> fst ` set dropped" for w
  proof -
    from that sub have "w \<in> fst ` set ?F"
      by blast
    then show ?thesis unfolding in_failing_iff by blast
  qed
  have sess: "sessions st' = without dropped (Map_set ws (session\<lparr>name := take 32 n\<rparr>) (sessions st))"
    unfolding room by simp
  have look: "map_of (sessions st') w =
      (if w \<in> fst ` set dropped then None
       else if w = ws then Some (session\<lparr>name := take 32 n\<rparr>) else map_of (sessions st) w)" for w
    unfolding sess by (simp add: map_of_without map_of_Map_set)
  have a: "map_of (sessions st') ws = Some (session\<lparr>name := take 32 n\<rparr>)"
    using self by (simp add: look)
  have b: "revealed st' = revealed st" unfolding room by simp
  have c: "map_of (sessions st) w = Some s" if "w \<noteq> ws" "map_of (sessions st') w = Some s" for w s
    using that by (simp add: look split: if_splits)
  have d: "map_of (sessions st') w = map_of (sessions st) w"
    if "w \<noteq> ws" "env w (SUserJoined (userId session) (take 32 n)) = None" for w
    using that fails [of w] by (auto simp: look)
  from a have a': "\<exists>s. map_of (sessions st') ws = Some s \<and> name s = take 32 n
              \<and> userId s = userId session \<and> vote s = vote session
              \<and> webSocket s = webSocket session"
    by simp
  from a' b c d show ?thesis by blast
qed

theorem rejoin_changes_only_the_name_witness:
  "map_of (sessions example_room) 1 = Some alice
   \<and> webSocketMessage flaky 1 (Parsed (CJoin ''Alicia'')) example_room =
       (example_room\<lparr>sessions := [(1, alice\<lparr>name := ''Alicia''\<rparr>), (3, guest)],
          attachments := (attachments example_room)(1 \<mapsto> attachment_of (alice\<lparr>name := ''Alicia''\<rparr>))\<rparr>,
        [Sent 1 (SState [UserEntry ''u1'' ''Alicia'' True, UserEntry ''u2'' ''Bob'' False] False None),
         Sent 1 (SJoined ''u1'' ''Alicia'')],
        Returned)
   \<and> map_of [(1::nat, alice\<lparr>name := ''Alicia''\<rparr>), (3, guest)] 1 = Some (alice\<lparr>name := ''Alicia''\<rparr>)
   \<and> map_of [(1::nat, alice\<lparr>name := ''Alicia''\<rparr>), (3, guest)] 3 = map_of (sessions example_room) 3"
proof -
  have run: "webSocketMessage flaky 1 (Parsed (CJoin ''Alicia'')) example_room =
       (example_room\<lparr>sessions := [(1, alice\<lparr>name := ''Alicia''\<rparr>), (3, guest)],
          attachments := (attachments example_room)(1 \<mapsto> attachment_of (alice\<lparr>name := ''Alicia''\<rparr>))\<rparr>,
        [Sent 1 (SState [UserEntry ''u1'' ''Alicia'' True, UserEntry ''u2'' ''Bob'' False] False None),
         Sent 1 (SJoined ''u1'' ''Alicia'')],
        Returned)"
    by (simp add: webSocketMessage_def try_block_def Let_def stateMessage_def broadcast_char
        named_sessions_def without_simps failing_simps delivered_simps eligible_def
        example_room_def flaky_def alice_def bob_def guest_def)
  have reg: "map_of (sessions example_room) 1 = Some alice"
    by (simp add: example_room_def)
  from rejoin_changes_only_the_name [OF reg run] run reg show ?thesis
    by (simp add: example_room_def)
qed

subsection \<open>Votes while the room is hidden\<close>

lemma webSocketMessage_events:
  assumes "Sent w m \<in> set (fst (snd (webSocketMessage env ws inb st)))"
  shows "(\<exists>err. m = SError err) \<or> Sent w m \<in> set (fst (snd (try_block env ws inb st)))"
  using assms
  by (auto simp: webSocketMessage_def split: prod.splits option.splits)

lemma dispatch_join_events:
  assumes "Sent w m \<in> set (fst (snd (dispatch env ws session (CJoin n) st)))"
  shows "m = stateMessage (st\<lparr>sessions := Map_set ws (session\<lparr>name := take 32 n\<rparr>) (sessions st),
                   attachments := (attachments st)(ws \<mapsto> attachment_of (session\<lparr>name := take 32 n\<rparr>))\<rparr>)
       \<or> m = SJoined (userId session) (take 32 n)
       \<or> m = SUserJoined (userId session) (take 32 n)"
  using assms
  by (auto simp: Let_def broadcast_char split: option.splits)

lemma dispatch_vote_events:
  assumes "Sent w m \<in> set (fst (snd (dispatch env ws session (CVote c) st)))"
  shows "m = SError ''Must join first'' \<or> m = SVoted (userId session) (c \<noteq> None)"
  using assms
  by (auto simp: Let_def broadcast_char send_def split: option.splits if_splits)

lemma dispatch_emoji_events:
  assumes "Sent w m \<in> set (fst (snd (dispatch env ws session (CEmoji t e) st)))"
  shows "m = SError ''Must join first'' \<or> m = SEmoji (userId session) t e"
  using assms
  by (auto simp: Let_def broadcast_char send_def split: option.splits if_splits)

lemma dispatch_reset_events:
  assumes "Sent w m \<in> set (fst (snd (dispatch env ws session CReset st)))"
  shows "m = SError ''Must join first'' \<or> m = SReset"
  using assms
  by (auto simp: Let_def broadcast_char send_def split: option.splits if_splits prod.splits)

lemma dispatch_reveal_events:
  assumes "Sent w m \<in> set (fst (snd (dispatch env ws session CReveal st)))"
  shows "m = SError ''Must join first'' \<or> revealed (fst (dispatch env ws session CReveal st))"
  using assms
  by (auto simp: Let_def broadcast_char send_def split: option.splits if_splits)

lemma stateMessage_hidden: "\<not> revealed st \<Longrightarrow> raw_votes (stateMessage st) = None"
  by (simp add: stateMessage_def)

lemma dispatch_hidden:
  assumes "\<not> revealed st" and "data \<noteq> CReveal"
    and "Sent w m \<in> set (fst (snd (dispatch env ws session data st)))"
  shows "raw_votes m = None"
proof (cases data)
  case (CJoin n)
  from dispatch_join_events [of w m env ws session n st] assms(1,3) show ?thesis
    unfolding CJoin by (auto simp: stateMessage_hidden)
next
  case (CVote c)
  from dispatch_vote_events [of w m env ws session c st] assms(3) show ?thesis
    unfolding CVote by auto
next
  case CReveal
  with assms(2) show ?thesis by simp
next
  case CReset
  from dispatch_reset_events [of w m env ws session st] assms(3) show ?thesis
    unfolding CReset by auto
next
  case (CEmoji t e)
  from dispatch_emoji_events [of w m env ws session t e st] assms(3) show ?thesis
    unfolding CEmoji by auto
qed

lemma try_block_events:
  assumes "Sent w m \<in> set (fst (snd (try_block env ws inb st)))"
  shows "\<exists>session data. map_of (sessions st) ws = Some session \<and> inb = Parsed data
           \<and> Sent w m \<in> set (fst (snd (dispatch env ws session data st)))"
  using assms
  by (auto simp: try_block_def simp del: dispatch.simps split: option.splits inbound.splits)

text \<open>
  Claim C1, as stated, covers every inbound message processed in a room whose
  \<open>revealed\<close> flag is off. One of them is reveal itself: it sets the flag and then
  broadcasts the votes, so processing it in the hidden room of the example sends Alice's
  vote to both named sessions.
\<close>

theorem reveal_counterexample:
  "\<not> revealed example_room
   \<and> snd (webSocketMessage reliable 1 (Parsed CReveal) example_room) =
       ([Sent 1 (SRevealed [(''u1'', Some ''5''), (''u2'', None)]),
         Sent 2 (SRevealed [(''u1'', Some ''5''), (''u2'', None)])],
        Returned)
   \<and> raw_votes (SRevealed [(''u1'', Some ''5''), (''u2'', None)]) =
       Some [(''u1'', Some ''5''), (''u2'', None)]"
  by (simp add: webSocketMessage_def try_block_def Let_def broadcast_char
        without_simps failing_simps delivered_simps eligible_def
        example_room_def reliable_def alice_def bob_def guest_def)

text \<open>
  Claim C1, amended. In a room whose \<open>revealed\<close> flag is off, no message sent while
  processing an inbound message other than reveal carries votes: a \<open>voted\<close> message has
  only the boolean, and the \<open>state\<close> message of a join has no votes. A message that does
  carry votes is sent only by a handler that leaves the flag set, which is the reveal of a
  session with a name.
\<close>

theorem hidden_votes_not_broadcast:
  assumes "\<not> revealed st"
    and "webSocketMessage env ws inb st = (st', evs, out)"
    and "Sent w m \<in> set evs"
  shows "(inb \<noteq> Parsed CReveal \<longrightarrow> raw_votes m = None)
       \<and> (raw_votes m \<noteq> None \<longrightarrow> revealed st')"
proof (cases "\<exists>err. m = SError err")
  case True
  then show ?thesis by auto
next
  case False
  have evs: "fst (snd (webSocketMessage env ws inb st)) = evs" and st': "fst (webSocketMessage env ws inb st) = st'"
    unfolding assms(2) by simp_all
  from webSocketMessage_events [of w m env ws inb st] assms(3) False
  have "Sent w m \<in> set (fst (snd (try_block env ws inb st)))"
    unfolding evs by blast
  from try_block_events [OF this] obtain session data where
    reg: "map_of (sessions st) ws = Some session" and inb: "inb = Parsed data"
    and ev: "Sent w m \<in> set (fst (snd (dispatch env ws session data st)))"
    by blast
  show ?thesis
  proof (cases "data = CReveal")
    case True
    from dispatch_reveal_events [of w m env ws session st] ev False
    have "revealed (fst (dispatch env ws session CReveal st))"
      unfolding True by blast
    then have "revealed st'"
      using fst_webSocketMessage_Parsed [OF reg, of env CReveal] st'
      unfolding inb True by simp
    then show ?thesis by (simp add: inb True)
  next
    case False
    from dispatch_hidden [OF assms(1) False ev] show ?thesis by simp
  qed
qed

theorem hidden_votes_not_broadcast_witness:
  "\<not> revealed example_room
   \<and> webSocketMessage reliable 1 (Parsed (CVote (Some ''8''))) example_room =
       (example_room\<lparr>sessions := [(1, alice\<lparr>vote := Some ''8''\<rparr>), (2, bob), (3, guest)],
          attachments := (attachments example_room)(1 \<mapsto> attachment_of (alice\<lparr>vote := Some ''8''\<rparr>))\<rparr>,
        [Sent 1 (SVoted ''u1'' True), Sent 2 (SVoted ''u1'' True)],
        Returned)
   \<and> Sent 2 (SVoted ''u1'' True) \<in> set [Sent 1 (SVoted ''u1'' True), Sent 2 (SVoted ''u1'' True)]
   \<and> raw_votes (SVoted ''u1'' True) = None"
proof -
  have hidden: "\<not> revealed example_room"
    by (simp add: example_room_def)
  have run: "webSocketMessage reliable 1 (Parsed (CVote (Some ''8''))) example_room =
       (example_room\<lparr>sessions := [(1, alice\<lparr>vote := Some ''8''\<rparr>), (2, bob), (3, guest)],
          attachments := (attachments example_room)(1 \<mapsto> attachment_of (alice\<lparr>vote := Some ''8''\<rparr>))\<rparr>,
        [Sent 1 (SVoted ''u1'' True), Sent 2 (SVoted ''u1'' True)],
        Returned)"
    by (simp add: webSocketMessage_def try_block_def Let_def broadcast_char
        without_simps failing_simps delivered_simps eligible_def
        example_room_def reliable_def alice_def bob_def guest_def)
  have ev: "Sent 2 (SVoted ''u1'' True) \<in> set [Sent 1 (SVoted ''u1'' True), Sent 2 (SVoted ''u1'' True)]"
    by simp
  from hidden_votes_not_broadcast [OF hidden run ev] hidden run ev show ?thesis
    by simp
qed

subsection \<open>Sessions without a name\<close>

text \<open>
  Claim C5 at a join whose name is the empty string, sent by the connection that has not
  joined. The \<open>state\<close> message leaves the sender out and the sender's name is still empty
  afterwards, yet \<open>userJoined\<close> with the empty name goes to Alice and to Bob: the join case
  has no check of the name, where the other four cases and \<open>closeOrErrorHandler\<close> have one.
\<close>

theorem join_with_empty_name_is_announced:
  "map_of (sessions example_room) 3 = Some guest \<and> name guest = []
   \<and> snd (webSocketMessage reliable 3 (Parsed (CJoin [])) example_room) =
       ([Sent 3 (SState [UserEntry ''u1'' ''Alice'' True, UserEntry ''u2'' ''Bob'' False] False None),
         Sent 3 (SJoined ''u3'' []),
         Sent 1 (SUserJoined ''u3'' []),
         Sent 2 (SUserJoined ''u3'' [])],
        Returned)
   \<and> map_of (sessions (fst (webSocketMessage reliable 3 (Parsed (CJoin [])) example_room))) 3 =
       Some guest"
  by (simp add: webSocketMessage_def try_block_def Let_def stateMessage_def broadcast_char
        named_sessions_def without_simps failing_simps delivered_simps eligible_def
        example_room_def reliable_def alice_def bob_def guest_def)

subsection \<open>Attachments and resumption\<close>

lemma mirroredI:
  assumes "distinct (map fst reg)"
    and "\<And>w s. (w, s) \<in> set reg \<Longrightarrow> webSocket s = w \<and> att w = Some (attachment_of s)"
  shows "mirrored att reg"
  using assms by (auto simp: mirrored_def)

lemma mirroredD:
  assumes "mirrored att reg"
  shows "distinct (map fst reg)"
    and "(w, s) \<in> set reg \<Longrightarrow> webSocket s = w"
    and "(w, s) \<in> set reg \<Longrightarrow> att w = Some (attachment_of s)"
  using assms by (auto simp: mirrored_def)

lemma mirrored_filter: "mirrored att reg \<Longrightarrow> mirrored att (filter P reg)"
  by (auto simp: mirrored_def distinct_map_filter)

lemma mirrored_without: "mirrored att reg \<Longrightarrow> mirrored att (without dropped reg)"
  unfolding without_def by (rule mirrored_filter)

lemma mirrored_Map_delete: "mirrored att reg \<Longrightarrow> mirrored att (Map_delete k reg)"
  unfolding Map_delete_def by (rule mirrored_filter)

lemma in_Map_set:
  assumes "(w, s) \<in> set (Map_set k v reg)" and "distinct (map fst reg)"
  shows "(w = k \<and> s = v) \<or> (w \<noteq> k \<and> (w, s) \<in> set reg)"
proof -
  have d: "distinct (map fst (Map_set k v reg))"
    using assms(2) by (rule distinct_Map_set)
  from assms(1) d have m: "map_of (Map_set k v reg) w = Some s"
    by (simp add: map_of_is_SomeI)
  show ?thesis
  proof (cases "w = k")
    case True
    with m show ?thesis by (simp add: map_of_Map_set)
  next
    case False
    with m have "map_of reg w = Some s" by (simp add: map_of_Map_set)
    then have "(w, s) \<in> set reg" by (rule map_of_SomeD)
    with False show ?thesis by simp
  qed
qed

lemma mirrored_Map_set:
  assumes "mirrored att reg" and "webSocket v = k"
  shows "mirrored (att(k \<mapsto> attachment_of v)) (Map_set k v reg)"
proof (rule mirroredI)
  show "distinct (map fst (Map_set k v reg))"
    using mirroredD(1) [OF assms(1)] by (rule distinct_Map_set)
next
  fix w s
  assume "(w, s) \<in> set (Map_set k v reg)"
  from in_Map_set [OF this mirroredD(1) [OF assms(1)]]
  show "webSocket s = w \<and> (att(k \<mapsto> attachment_of v)) w = Some (attachment_of s)"
    using assms(2) mirroredD(2,3) [OF assms(1)] by auto
qed

lemma reset_votes_fst:
  "fst (reset_votes reg att) = map (\<lambda>p. (fst p, (snd p)\<lparr>vote := None\<rparr>)) reg"
  by (induction reg arbitrary: att) (auto simp: split_beta)

lemma reset_votes_snd:
  assumes "distinct (map fst reg)" and "\<forall>p \<in> set reg. webSocket (snd p) = fst p"
  shows "snd (reset_votes reg att) w =
           (case map_of reg w of
              None \<Rightarrow> att w
            | Some s \<Rightarrow> Some \<lparr>userId = userId s, name = name s, vote = None\<rparr>)"
  using assms
proof (induction reg arbitrary: att)
  case Nil
  then show ?case by simp
next
  case (Cons p reg)
  obtain k s where p: "p = (k, s)" by (cases p)
  from Cons.prems have k: "webSocket s = k" and notin: "k \<notin> fst ` set reg"
    and d: "distinct (map fst reg)" and rest: "\<forall>p \<in> set reg. webSocket (snd p) = fst p"
    by (auto simp: p)
  have none: "map_of reg k = None"
    using notin by (simp add: map_of_eq_None_iff)
  let ?att = "att(k \<mapsto> \<lparr>userId = userId s, name = name s, vote = None\<rparr>)"
  have step: "snd (reset_votes (p # reg) att) w = snd (reset_votes reg ?att) w"
    by (simp add: p k split_beta)
  have IH: "snd (reset_votes reg ?att) w =
      (case map_of reg w of
         None \<Rightarrow> ?att w
       | Some s \<Rightarrow> Some \<lparr>userId = userId s, name = name s, vote = None\<rparr>)"
    by (rule Cons.IH [OF d rest])
  show ?case
  proof (cases "w = k")
    case True
    show ?thesis unfolding step IH by (simp add: True none p)
  next
    case False
    show ?thesis unfolding step IH using False by (simp add: p split: option.split)
  qed
qed

lemma mirrored_reset_votes:
  assumes "mirrored att reg"
  shows "mirrored (snd (reset_votes reg att)) (fst (reset_votes reg att))"
proof (rule mirroredI)
  show "distinct (map fst (fst (reset_votes reg att)))"
    using mirroredD(1) [OF assms] by (simp add: reset_votes_fst comp_def)
next
  fix w s
  assume "(w, s) \<in> set (fst (reset_votes reg att))"
  then obtain s0 where in0: "(w, s0) \<in> set reg" and s: "s = s0\<lparr>vote := None\<rparr>"
    by (auto simp: reset_votes_fst)
  have ws: "\<forall>p \<in> set reg. webSocket (snd p) = fst p"
    using mirroredD(2) [OF assms] by auto
  have look: "map_of reg w = Some s0"
    using in0 mirroredD(1) [OF assms] by (simp add: map_of_is_SomeI)
  show "webSocket s = w \<and> snd (reset_votes reg att) w = Some (attachment_of s)"
    using mirroredD(2) [OF assms in0]
    by (simp add: reset_votes_snd [OF mirroredD(1) [OF assms] ws] look s attachment_of_def)
qed

lemma attached_broadcast:
  "attached st \<Longrightarrow> attached (fst (broadcast env message exclude st))"
  by (simp add: attached_def broadcast_char mirrored_without)

lemma attached_update:
  assumes "attached st" and "webSocket v = ws"
  shows "attached (st\<lparr>sessions := Map_set ws v (sessions st),
                       attachments := (attachments st)(ws \<mapsto> attachment_of v)\<rparr>)"
  using mirrored_Map_set [OF assms(1) [unfolded attached_def] assms(2)]
  by (simp add: attached_def)

lemma attached_revealed: "attached (st\<lparr>revealed := b\<rparr>) = attached st"
  by (simp add: attached_def)

lemma attached_join:
  assumes "attached st" and "webSocket session = ws"
  shows "attached (fst (dispatch env ws session (CJoin n) st))"
  unfolding dispatch_join_room attached_def
  using mirrored_Map_set [OF assms(1) [unfolded attached_def], of "session\<lparr>name := take 32 n\<rparr>" ws] assms(2)
  by (simp add: mirrored_without)

lemma attached_vote:
  assumes "attached st" and "webSocket session = ws"
  shows "attached (fst (dispatch env ws session (CVote c) st))"
proof (cases "name session = []")
  case True
  with assms(1) show ?thesis by (simp add: split_beta)
next
  case False
  have "attached (st\<lparr>sessions := Map_set ws (session\<lparr>vote := c\<rparr>) (sessions st),
                     attachments := (attachments st)(ws \<mapsto> attachment_of (session\<lparr>vote := c\<rparr>))\<rparr>)"
    using assms by (intro attached_update) simp_all
  from attached_broadcast [OF this] False show ?thesis
    by (simp add: split_beta Let_def)
qed

lemma attached_reveal:
  assumes "attached st"
  shows "attached (fst (dispatch env ws session CReveal st))"
proof (cases "name session = []")
  case True
  with assms show ?thesis by (simp add: split_beta)
next
  case False
  have "attached (st\<lparr>revealed := True\<rparr>)"
    using assms by (simp add: attached_revealed)
  from attached_broadcast [OF this] False show ?thesis
    by (simp add: split_beta Let_def)
qed

lemma attached_emoji:
  assumes "attached st"
  shows "attached (fst (dispatch env ws session (CEmoji t e) st))"
proof (cases "name session = []")
  case True
  with assms show ?thesis by (simp add: split_beta)
next
  case False
  from attached_broadcast [OF assms] False show ?thesis
    by (simp add: split_beta Let_def)
qed

lemma attached_reset:
  assumes "attached st"
  shows "attached (fst (dispatch env ws session CReset st))"
proof (cases "name session = []")
  case True
  with assms show ?thesis by (simp add: split_beta)
next
  case False
  have "attached (st\<lparr>revealed := False, sessions := fst (reset_votes (sessions st) (attachments st)),
                     attachments := snd (reset_votes (sessions st) (attachments st))\<rparr>)"
    using mirrored_reset_votes [OF assms [unfolded attached_def]] by (simp add: attached_def)
  from attached_broadcast [OF this] False show ?thesis
    by (simp add: split_beta Let_def)
qed

lemma attached_dispatch:
  assumes "attached st" and "webSocket session = ws"
  shows "attached (fst (dispatch env ws session data st))"
proof (cases data)
  case (CJoin n)
  show ?thesis unfolding CJoin using assms by (rule attached_join)
next
  case (CVote c)
  show ?thesis unfolding CVote using assms by (rule attached_vote)
next
  case CReveal
  show ?thesis unfolding CReveal using assms(1) by (rule attached_reveal)
next
  case CReset
  show ?thesis unfolding CReset using assms(1) by (rule attached_reset)
next
  case (CEmoji t e)
  show ?thesis unfolding CEmoji using assms(1) by (rule attached_emoji)
qed

lemma attached_webSocketMessage:
  assumes "attached st"
  shows "attached (fst (webSocketMessage env ws inb st))"
proof (cases "map_of (sessions st) ws")
  case None
  with assms show ?thesis by (simp add: fst_webSocketMessage try_block_def)
next
  case (Some session)
  then have "(ws, session) \<in> set (sessions st)" by (rule map_of_SomeD)
  then have ws: "webSocket session = ws"
    using mirroredD(2) [OF assms [unfolded attached_def]] by simp
  show ?thesis
  proof (cases inb)
    case (Parsed data)
    show ?thesis
      unfolding Parsed fst_webSocketMessage_Parsed [OF Some] using assms ws by (rule attached_dispatch)
  qed (use assms Some in \<open>simp_all add: fst_webSocketMessage try_block_def\<close>)
qed

lemma attached_closeOrErrorHandler:
  assumes "attached st"
  shows "attached (fst (closeOrErrorHandler env ws st))"
proof -
  have del: "attached (s\<lparr>sessions := Map_delete ws (sessions s)\<rparr>)" if "attached s" for s
    using that by (simp add: attached_def mirrored_Map_delete)
  show ?thesis
    using del [OF assms] del [OF attached_broadcast [OF assms]]
    by (simp add: closeOrErrorHandler_def split_beta split: option.splits)
qed

lemma attached_handleSession:
  assumes "attached st"
  shows "attached (handleSession ws uid st)"
  using attached_update [OF assms, of "\<lparr>userId = uid, name = [], vote = None, webSocket = ws\<rparr>" ws]
  by (simp add: handleSession_def attachment_of_def attached_def)

lemma restore_mirrored:
  assumes "set wss \<subseteq> dom att" and "mirrored att reg"
  shows "\<exists>reg'. restore wss att reg = Some reg' \<and> mirrored att reg'
           \<and> fst ` set reg' = set wss \<union> fst ` set reg"
  using assms
proof (induction wss arbitrary: reg)
  case Nil
  then show ?case by simp
next
  case (Cons ws wss)
  from Cons.prems(1) obtain m where m: "att ws = Some m" by auto
  let ?s = "\<lparr>userId = userId m, name = name m, vote = vote m, webSocket = ws\<rparr>"
  have am: "attachment_of ?s = m" by (simp add: attachment_of_def)
  have "mirrored (att(ws \<mapsto> attachment_of ?s)) (Map_set ws ?s reg)"
    using Cons.prems(2) by (rule mirrored_Map_set) simp
  moreover have "att(ws \<mapsto> attachment_of ?s) = att"
    unfolding am using m by (rule map_upd_triv)
  ultimately have mir: "mirrored att (Map_set ws ?s reg)" by simp
  from Cons.prems(1) have sub: "set wss \<subseteq> dom att" by simp
  from Cons.IH [OF sub mir] obtain reg' where
    "restore wss att (Map_set ws ?s reg) = Some reg'" "mirrored att reg'"
    "fst ` set reg' = set wss \<union> fst ` set (Map_set ws ?s reg)"
    by blast
  then show ?case
    by (auto simp: m keys_Map_set)
qed

lemma mirrored_unique:
  assumes "mirrored att reg" and "mirrored att reg'"
    and "map_of reg w = Some s" and "map_of reg' w = Some s'"
  shows "s' = s"
proof -
  from assms(3) have "(w, s) \<in> set reg" by (rule map_of_SomeD)
  from mirroredD(2,3) [OF assms(1) this] have s: "webSocket s = w" "att w = Some (attachment_of s)"
    by simp_all
  from assms(4) have "(w, s') \<in> set reg'" by (rule map_of_SomeD)
  from mirroredD(2,3) [OF assms(2) this] have s': "webSocket s' = w" "att w = Some (attachment_of s')"
    by simp_all
  from s s' have "attachment_of s' = attachment_of s" "webSocket s' = webSocket s"
    by simp_all
  then show ?thesis
    by (simp add: attachment_of_def)
qed

lemma constructor_restores:
  assumes "attached st" and "set wss \<subseteq> dom (attachments st)"
  shows "\<exists>r. constructor wss (attachments st) = Some r \<and> attached r \<and> \<not> revealed r
           \<and> attachments r = attachments st \<and> fst ` set (sessions r) = set wss
           \<and> (\<forall>w \<in> set wss. \<forall>s. map_of (sessions st) w = Some s \<longrightarrow>
                  map_of (sessions r) w = Some s)"
proof -
  have "mirrored (attachments st) []" by (simp add: mirrored_def)
  from restore_mirrored [OF assms(2) this] obtain reg where
    res: "restore wss (attachments st) [] = Some reg"
    and mir: "mirrored (attachments st) reg"
    and keys: "fst ` set reg = set wss"
    by auto
  have same: "map_of reg w = Some s" if "w \<in> set wss" "map_of (sessions st) w = Some s" for w s
  proof -
    from that(1) keys have "w \<in> fst ` set reg" by simp
    then obtain s' where s': "map_of reg w = Some s'"
      by (cases "map_of reg w") (simp_all add: map_of_eq_None_iff)
    from mirrored_unique [OF assms(1) [unfolded attached_def] mir that(2) s'] s'
    show ?thesis by simp
  qed
  show ?thesis
    using res mir keys same
    by (intro exI [of _ "\<lparr>sessions = reg, revealed = False, attachments = attachments st\<rparr>"])
      (simp add: constructor_def attached_def)
qed

text \<open>
  Claim C9. In a room whose registry mirrors the attachments, it still does after
  \<open>handleSession\<close>, after \<open>webSocketMessage\<close> on any inbound message and after
  \<open>closeOrErrorHandler\<close>, whatever the sends do. From such a room, for any list of
  connections that the host reports as open and that have an attachment, the constructor
  builds a room: its registry holds exactly those connections and mirrors the attachments,
  each of them that was registered has the session it had (\<open>userId\<close>, name and vote), and
  \<open>revealed\<close> is off whatever it was before.
\<close>

theorem attachments_mirror_registry:
  assumes "attached st"
  shows "attached (handleSession ws uid st)
       \<and> attached (fst (webSocketMessage env ws inb st))
       \<and> attached (fst (closeOrErrorHandler env ws st))
       \<and> (set wss \<subseteq> dom (attachments st) \<longrightarrow>
            (\<exists>r. constructor wss (attachments st) = Some r \<and> attached r \<and> \<not> revealed r
               \<and> attachments r = attachments st \<and> fst ` set (sessions r) = set wss
               \<and> (\<forall>w \<in> set wss. \<forall>s. map_of (sessions st) w = Some s \<longrightarrow>
                      map_of (sessions r) w = Some s)))"
  using attached_handleSession [OF assms] attached_webSocketMessage [OF assms]
    attached_closeOrErrorHandler [OF assms] constructor_restores [OF assms]
  by blast

theorem attachments_mirror_registry_witness:
  "attached (example_room\<lparr>revealed := True\<rparr>)
   \<and> set [1, 3] \<subseteq> dom (attachments (example_room\<lparr>revealed := True\<rparr>))
   \<and> constructor [1, 3] (attachments (example_room\<lparr>revealed := True\<rparr>)) =
       Some \<lparr>sessions = [(1, alice), (3, guest)], revealed = False,
             attachments = attachments example_room\<rparr>
   \<and> attached (handleSession 4 ''u4'' (example_room\<lparr>revealed := True\<rparr>))"
proof -
  have a: "attached (example_room\<lparr>revealed := True\<rparr>)"
    by (simp add: attached_def mirrored_def attachment_of_def example_room_def
        alice_def bob_def guest_def)
  have c: "constructor [1, 3] (attachments (example_room\<lparr>revealed := True\<rparr>)) =
       Some \<lparr>sessions = [(1, alice), (3, guest)], revealed = False,
             attachments = attachments example_room\<rparr>"
    by (simp add: constructor_def attachment_of_def example_room_def alice_def bob_def guest_def)
  have d: "set [1, 3] \<subseteq> dom (attachments (example_room\<lparr>revealed := True\<rparr>))"
    by (simp add: example_room_def)
  from attachments_mirror_registry [OF a, of 4 "''u4''" reliable Unrecognized "[1, 3]"] a c d
  show ?thesis by simp
qed

end
